theory Spec2Isabelle
  imports Complex_Main
begin

section \<open>Synthetic insulin pump cohort: generator and advisor\<close>

text \<open>
  A shallow embedding of \<^verbatim>\<open>insulin_pump_app.py\<close>: the dataclasses
  \<^verbatim>\<open>MonthlyData\<close> and \<^verbatim>\<open>Patient\<close>, the generator
  \<^verbatim>\<open>create_patients\<close> with its helper \<^verbatim>\<open>_generate_name\<close>, and the
  advisor \<^verbatim>\<open>recommend_adjustment\<close> with \<^verbatim>\<open>Patient.metrics_for_month\<close>.
  The Streamlit front end (\<^verbatim>\<open>main\<close>) only displays what these return.

  Conventions of the embedding.
  \<^item> A finite Python \<^verbatim>\<open>float\<close> is the \<open>real\<close> number it denotes, and every float
    operation rounds: \<open>float_add\<close>, \<open>float_sub\<close> and \<open>float_mul\<close> are the exact
    result rounded to binary64, to nearest with ties to even (\<open>float_round\<close>).
    Comparisons, \<^verbatim>\<open>min\<close> and \<^verbatim>\<open>max\<close> are exact. The exponent range is not modelled:
    numbers are taken to stay clear of overflow and underflow, as those of the generator
    do (a few hundred at most).
  \<^item> \<^verbatim>\<open>np.mean\<close> is third-party code whose order of summation, and with it the
    rounding of its result, is not fixed by the source: it is a parameter, the field
    \<open>np_mean\<close> of a \<open>numpy\<close> record. Its result is an \<open>npfloat\<close>: a finite number, an
    infinity (an overflowing sum) or NaN (an empty list). Every comparison with NaN is
    false.
  \<^item> A Python \<^verbatim>\<open>str\<close> is a \<open>string\<close> holding the UTF-8 bytes of the source file's
    literal.
  \<^item> The two pseudo-random generators (\<^verbatim>\<open>random\<close> and \<^verbatim>\<open>numpy.random\<close>) are
    third-party code. Their primitive draws are parameters, collected in a
    \<open>library\<close> record; their global states are passed explicitly as a pair.
  \<^item> A raised exception is a value \<open>Inl e\<close>.
\<close>

subsection \<open>Data model\<close>

datatype error = KeyError | IndexError

text \<open>
  The field \<^verbatim>\<open>notes\<close> is \<open>notes_md\<close> and the field \<^verbatim>\<open>id\<close> is \<open>id_p\<close>: the plain
  names are taken in Isabelle. \<^verbatim>\<open>months\<close> is a dict from month index to record.
\<close>

record MonthlyData =
  bg_values :: "real list"
  basal_units :: real
  bolus_units :: real
  notes_md :: string

record Patient =
  id_p :: int
  name :: string
  pump_type :: string
  months :: "int \<rightharpoonup> MonthlyData"

subsection \<open>Float arithmetic\<close>

text \<open>
  Rounding to the nearest integer, ties to the even one; and rounding a real to
  binary64: with \<open>e\<close> the exponent of \<open>x\<close> (\<open>2 ^ e \<le> \<bar>x\<bar> < 2 ^ (e + 1)\<close>), the
  representable numbers around \<open>x\<close> are the multiples of \<open>u = 2 ^ (e - 52)\<close>, and \<open>x\<close>
  goes to the nearest of them.
\<close>

definition round_half_even :: "real \<Rightarrow> int" where
  "round_half_even y =
     (let f = \<lfloor>y\<rfloor>; d = y - of_int f
      in if d < 1 / 2 then f else if 1 / 2 < d then f + 1 else if even f then f else f + 1)"

definition float_round :: "real \<Rightarrow> real" where
  "float_round x =
     (let u = 2 powr (of_int \<lfloor>log 2 \<bar>x\<bar>\<rfloor> - 52)
      in of_int (round_half_even (x / u)) * u)"

definition float_add :: "real \<Rightarrow> real \<Rightarrow> real" where
  "float_add a b = float_round (a + b)"

definition float_sub :: "real \<Rightarrow> real \<Rightarrow> real" where
  "float_sub a b = float_round (a - b)"

definition float_mul :: "real \<Rightarrow> real \<Rightarrow> real" where
  "float_mul a b = float_round (a * b)"

text \<open>The numbers binary64 represents exactly (with any exponent).\<close>

definition binary64 :: "real \<Rightarrow> bool" where
  "binary64 a = (\<exists>k j :: int. \<bar>k\<bar> \<le> 2 ^ 53 \<and> a = of_int k * 2 powr of_int j)"

text \<open>What \<^verbatim>\<open>np.mean\<close> returns, and the comparisons of such a value with a number.\<close>

datatype npfloat = Finite real | PosInf | NegInf | NaN

record numpy =
  np_mean :: "real list \<Rightarrow> npfloat"

definition float_gt :: "npfloat \<Rightarrow> real \<Rightarrow> bool" where
  "float_gt a b = (case a of Finite x \<Rightarrow> x > b | PosInf \<Rightarrow> True | NegInf \<Rightarrow> False | NaN \<Rightarrow> False)"

definition float_lt :: "npfloat \<Rightarrow> real \<Rightarrow> bool" where
  "float_lt a b = (case a of Finite x \<Rightarrow> x < b | PosInf \<Rightarrow> False | NegInf \<Rightarrow> True | NaN \<Rightarrow> False)"

subsection \<open>The pseudo-random number libraries\<close>

text \<open>
  \<open>'r\<close> is the state of Python's \<^verbatim>\<open>random\<close> module, \<open>'n\<close> the state of numpy's
  legacy global \<^verbatim>\<open>RandomState\<close> (which includes its cached Gaussian).
  \<^item> \<open>random_seed\<close>: the state \<^verbatim>\<open>random.seed(k)\<close> installs;
  \<^item> \<open>randbelow\<close>: \<^verbatim>\<open>Random._randbelow(n)\<close>, the integer draw under \<^verbatim>\<open>random.choice\<close>;
  \<^item> \<open>np_random_seed\<close>: the state \<^verbatim>\<open>np.random.seed(k)\<close> installs;
  \<^item> \<open>legacy_gauss\<close>: one standard normal deviate;
  \<^item> \<open>random_sample\<close>: one deviate of the unit interval.
\<close>

record ('r, 'n) library =
  random_seed :: "int \<Rightarrow> 'r"
  randbelow :: "'r \<Rightarrow> nat \<Rightarrow> nat \<times> 'r"
  np_random_seed :: "int \<Rightarrow> 'n"
  legacy_gauss :: "'n \<Rightarrow> real \<times> 'n"
  random_sample :: "'n \<Rightarrow> real \<times> 'n"

text \<open>The documented ranges of the two bounded primitives.\<close>

definition randbelow_ok :: "('r, 'n) library \<Rightarrow> bool" where
  "randbelow_ok L = (\<forall>r n. 0 < n \<longrightarrow> fst (randbelow L r n) < n)"

definition random_sample_ok :: "('r, 'n) library \<Rightarrow> bool" where
  "random_sample_ok L = (\<forall>s. 0 \<le> fst (random_sample L s) \<and> fst (random_sample L s) < 1)"

text \<open>
  \<^verbatim>\<open>random.choice(seq)\<close> is \<^verbatim>\<open>seq[self._randbelow(len(seq))]\<close>, and raises
  \<^verbatim>\<open>IndexError\<close> on an empty sequence; so would an index out of range.
\<close>

definition choice :: "('r, 'n) library \<Rightarrow> 'a list \<Rightarrow> 'r \<Rightarrow> error + ('a \<times> 'r)" where
  "choice L seq r =
     (if seq = [] then Inl IndexError
      else (case randbelow L r (length seq) of
              (i, r') \<Rightarrow> if i < length seq then Inr (seq ! i, r') else Inl IndexError))"

text \<open>
  \<^verbatim>\<open>np.random.normal(loc, scale)\<close> is \<open>loc + scale * gauss\<close> in double arithmetic, one
  rounding for each operation; with \<^verbatim>\<open>size=k\<close> it fills an array with \<open>k\<close> such draws
  in order. \<^verbatim>\<open>np.random.uniform(low, high)\<close> is \<open>low + (high - low) * random_sample\<close>,
  likewise.
\<close>

definition normal :: "('r, 'n) library \<Rightarrow> real \<Rightarrow> real \<Rightarrow> 'n \<Rightarrow> real \<times> 'n" where
  "normal L loc scale s =
     (case legacy_gauss L s of (g, s') \<Rightarrow> (float_add loc (float_mul scale g), s'))"

fun normal_size :: "('r, 'n) library \<Rightarrow> real \<Rightarrow> real \<Rightarrow> nat \<Rightarrow> 'n \<Rightarrow> real list \<times> 'n" where
  "normal_size L loc scale 0 s = ([], s)"
| "normal_size L loc scale (Suc k) s =
     (case normal L loc scale s of
        (x, s1) \<Rightarrow> (case normal_size L loc scale k s1 of (xs, s2) \<Rightarrow> (x # xs, s2)))"

definition uniform :: "('r, 'n) library \<Rightarrow> real \<Rightarrow> real \<Rightarrow> 'n \<Rightarrow> real \<times> 'n" where
  "uniform L low high s =
     (case random_sample L s of
        (u, s') \<Rightarrow> (float_add low (float_mul (float_sub high low) u), s'))"

text \<open>\<^verbatim>\<open>np.clip(a, a_min, a_max)\<close> is \<^verbatim>\<open>minimum(a_max, maximum(a, a_min))\<close>.\<close>

definition clip :: "real \<Rightarrow> real \<Rightarrow> real \<Rightarrow> real" where
  "clip a a_min a_max = min a_max (max a a_min)"

subsection \<open>String constants\<close>

text \<open>The non-ASCII characters of the literals, as UTF-8.\<close>

definition nb_hyphen :: string where
  "nb_hyphen = [CHR 0xE2, CHR 0x80, CHR 0x91]"

definition cite :: "string \<Rightarrow> string \<Rightarrow> string" where
  "cite n l = [CHR 0xE3, CHR 0x80, CHR 0x90] @ n @ [CHR 0xE2, CHR 0x80, CHR 0xA0] @ l
              @ [CHR 0xE3, CHR 0x80, CHR 0x91]"

definition first_names :: "string list" where
  "first_names = [''Alex'', ''Casey'', ''Jordan'', ''Taylor'', ''Morgan'',
                  ''Robin'', ''Blake'', ''Sydney'', ''Jamie'', ''Avery'']"

definition last_names :: "string list" where
  "last_names = [''Nguyen'', ''Smith'', ''Patel'', ''Kim'', ''Garcia'',
                 ''Brown'', ''Hernandez'', ''Lee'', ''Johnson'', ''Davis'']"

definition pump_choices :: "string list" where
  "pump_choices = [''Omnipod'', ''Tandem t:slim X2'', ''Medtronic 780G'']"

definition month_names :: "string list" where
  "month_names = [''January'', ''February'', ''March'', ''April'', ''May'', ''June'',
                  ''July'', ''August'', ''September'', ''October'', ''November'', ''December'']"

definition dawn_note :: "string \<Rightarrow> string" where
  "dawn_note month_name =
     ''Observed higher fasting glucose in '' @ month_name @ ''. ''
     @ ''Increased early'' @ nb_hyphen @ ''morning basal to address the dawn phenomenon''
     @ cite ''23'' ''L633-L641'' @ ''.''"

definition exercise_note :: "string \<Rightarrow> string" where
  "exercise_note month_name =
     ''Regular aerobic exercise in '' @ month_name @ '' lowered glucose levels. ''
     @ ''Temporary basal reduction of 50% during workouts was applied''
     @ cite ''37'' ''L9-L17'' @ ''.''"

definition illness_note :: "string \<Rightarrow> string" where
  "illness_note month_name =
     ''Illness in '' @ month_name @ '' increased insulin requirements. ''
     @ ''Temporary basal increased by 30% as per sick'' @ nb_hyphen @ ''day protocol''
     @ cite ''38'' ''L19-L25'' @ ''.''"

definition routine_note :: "string \<Rightarrow> string" where
  "routine_note month_name =
     ''Routine month of pump therapy in '' @ month_name @ ''. Continued monitoring.''"

definition above_target :: string where
  "above_target =
     ''Average blood glucose is above target. Consider increasing basal ''
     @ ''rates in the early morning or adjusting the insulin'' @ nb_hyphen @ ''to''
     @ nb_hyphen @ ''carbohydrate ratio ''
     @ ''for meals. Review bolus timing to ensure pre'' @ nb_hyphen @ ''meal dosing.''"

definition below_target :: string where
  "below_target =
     ''Average blood glucose is below target. Reduce basal delivery or increase ''
     @ ''carbohydrate intake at snacks. Consider setting a temporary basal decrease ''
     @ ''during times of increased activity.''"

definition within_target :: string where
  "within_target =
     ''Average blood glucose is within target range. Continue current pump settings ''
     @ ''while maintaining regular monitoring.''"

subsection \<open>The generator\<close>

text \<open>\<^verbatim>\<open>_generate_name\<close>: two choices, left to right, joined by a space.\<close>

definition generate_name :: "('r, 'n) library \<Rightarrow> 'r \<Rightarrow> error + (string \<times> 'r)" where
  "generate_name L r =
     (case choice L first_names r of
        Inl e \<Rightarrow> Inl e
      | Inr (f, r1) \<Rightarrow>
          (case choice L last_names r1 of
             Inl e \<Rightarrow> Inl e
           | Inr (l, r2) \<Rightarrow> Inr (f @ '' '' @ l, r2)))"

text \<open>
  The body of the loop \<^verbatim>\<open>for m_idx in range(12)\<close>, from the numpy state \<open>s\<close> at the
  start of the iteration: it returns the \<^verbatim>\<open>MonthlyData\<close> it builds and the numpy
  state it leaves. \<^verbatim>\<open>m_idx\<close> ranges over \<^verbatim>\<open>range(12)\<close>, so
  \<^verbatim>\<open>month_names[m_idx]\<close> is in range. \<^verbatim>\<open>140 + ...\<close> and \<^verbatim>\<open>base_mean -= 5\<close> are
  float operations; the three tests compare floats with integers, exactly.
\<close>

definition month_body ::
  "('r, 'n) library \<Rightarrow> numpy \<Rightarrow> string \<Rightarrow> nat \<Rightarrow> 'n \<Rightarrow> MonthlyData \<times> 'n" where
  "month_body L N pump m_idx s =
     (let days_in_month = 30
      in case normal L 0 10 s of (x, s1) \<Rightarrow>
         let base_mean = float_add 140 x;
             base_mean = (if pump \<noteq> ''Omnipod'' then float_sub base_mean 5 else base_mean)
         in case normal_size L base_mean 20 days_in_month s1 of (raw, s2) \<Rightarrow>
            let bg = map (\<lambda>v. clip v 50 350) raw
            in case uniform L 18 40 s2 of (basal, s3) \<Rightarrow>
               case uniform L 15 35 s3 of (bolus, s4) \<Rightarrow>
               let month_name = month_names ! m_idx;
                   note =
                     (if m_idx \<in> set [0, 1] \<and> base_mean > 150 then dawn_note month_name
                      else if m_idx \<in> set [3, 4, 5] \<and> float_lt (np_mean N bg) 120
                        then exercise_note month_name
                      else if m_idx \<in> set [9] \<and> float_gt (np_mean N bg) 170
                        then illness_note month_name
                      else routine_note month_name)
               in (\<lparr>bg_values = bg, basal_units = basal, bolus_units = bolus,
                     notes_md = note\<rparr>, s4))"

text \<open>
  The value of the local variable \<^verbatim>\<open>base_mean\<close> in the iteration that starts from the
  numpy state \<open>s\<close>. The dataset does not store it; the statements about the first
  narrative rule name it through this function.
\<close>

definition base_mean_at :: "('r, 'n) library \<Rightarrow> string \<Rightarrow> 'n \<Rightarrow> real" where
  "base_mean_at L pump s =
     (let base_mean = float_add 140 (fst (normal L 0 10 s))
      in if pump \<noteq> ''Omnipod'' then float_sub base_mean 5 else base_mean)"

text \<open>The inner loop over the month indices, storing each month in the patient's dict.\<close>

fun months_loop ::
  "('r, 'n) library \<Rightarrow> numpy \<Rightarrow> string \<Rightarrow> nat list \<Rightarrow> Patient \<Rightarrow> 'n \<Rightarrow> Patient \<times> 'n"
  where
  "months_loop L N pump [] patient s = (patient, s)"
| "months_loop L N pump (m_idx # rest) patient s =
     (case month_body L N pump m_idx s of
        (md, s') \<Rightarrow>
          months_loop L N pump rest
            (patient\<lparr>months := (months patient)(int m_idx \<mapsto> md)\<rparr>) s')"

text \<open>The outer loop over the patient ids.\<close>

fun patients_loop ::
  "('r, 'n) library \<Rightarrow> numpy \<Rightarrow> nat list \<Rightarrow> Patient list \<Rightarrow> 'r \<times> 'n
     \<Rightarrow> error + (Patient list \<times> 'r \<times> 'n)"
  where
  "patients_loop L N [] patients w = Inr (patients, w)"
| "patients_loop L N (pid # rest) patients (r, s) =
     (case generate_name L r of
        Inl e \<Rightarrow> Inl e
      | Inr (nm, r1) \<Rightarrow>
          (case choice L pump_choices r1 of
             Inl e \<Rightarrow> Inl e
           | Inr (pump, r2) \<Rightarrow>
               (case months_loop L N pump [0..<12]
                       \<lparr>id_p = int pid, name = nm, pump_type = pump, months = Map.empty\<rparr> s of
                  (patient, s') \<Rightarrow> patients_loop L N rest (patients @ [patient]) (r2, s'))))"

text \<open>
  \<^verbatim>\<open>create_patients(num_patients)\<close>, run with the two global generator states \<open>w\<close>:
  both are reseeded before anything is drawn. \<^verbatim>\<open>range(num_patients)\<close> is empty for a
  count below one.
\<close>

definition create_patients ::
  "('r, 'n) library \<Rightarrow> numpy \<Rightarrow> int \<Rightarrow> 'r \<times> 'n \<Rightarrow> error + (Patient list \<times> 'r \<times> 'n)" where
  "create_patients L N num_patients w =
     (case w of (r0, s0) \<Rightarrow>
        let r = random_seed L 42;
            s = np_random_seed L 42
        in patients_loop L N [0..<nat num_patients] [] (r, s))"

subsection \<open>The advisor\<close>

text \<open>
  \<^verbatim>\<open>self.months[month_index]\<close> raises \<^verbatim>\<open>KeyError\<close> on a missing key. The average is
  \<^verbatim>\<open>float(np.mean(md.bg_values))\<close>: the value numpy returns, as a Python float.
\<close>

definition metrics_for_month ::
  "numpy \<Rightarrow> Patient \<Rightarrow> int \<Rightarrow> error + (npfloat \<times> real \<times> real)" where
  "metrics_for_month N p month_index =
     (case months p month_index of
        None \<Rightarrow> Inl KeyError
      | Some md \<Rightarrow> Inr (np_mean N (bg_values md), basal_units md, bolus_units md))"

definition recommend_adjustment :: "numpy \<Rightarrow> Patient \<Rightarrow> int \<Rightarrow> error + string" where
  "recommend_adjustment N patient month_index =
     (case metrics_for_month N patient month_index of
        Inl e \<Rightarrow> Inl e
      | Inr (avg_bg, basal, bolus) \<Rightarrow>
          Inr (if float_gt avg_bg 180 then above_target
               else if float_lt avg_bg 80 then below_target
               else within_target))"

subsection \<open>The specification's wording\<close>

text \<open>
  The three rules below follow the prose of the specification, not the code; the
  theorems compare them with the functions above. Where the prose speaks of the mean
  of a month's readings, the rules take the value \<^verbatim>\<open>np.mean\<close> returns for them.

  The narrative rule: January or February with a base mean above 150 gives the dawn
  note; else April, May or June with the mean of the month's readings below 120 the
  exercise note; else October with that mean above 170 the illness note; else the
  routine note.
\<close>

definition narrative_spec :: "nat \<Rightarrow> real \<Rightarrow> npfloat \<Rightarrow> string" where
  "narrative_spec month_index base mean =
     (if (month_index = 0 \<or> month_index = 1) \<and> base > 150
        then dawn_note (month_names ! month_index)
      else if (month_index = 3 \<or> month_index = 4 \<or> month_index = 5) \<and> float_lt mean 120
        then exercise_note (month_names ! month_index)
      else if month_index = 9 \<and> float_gt mean 170
        then illness_note (month_names ! month_index)
      else routine_note (month_names ! month_index))"

text \<open>
  The sampling rule for one patient-month: a base mean drawn from the normal
  distribution with mean 140 and standard deviation 10, less 5 when the pump is not
  Omnipod; 30 readings drawn with that mean and standard deviation 20, each clipped to
  \<open>[50, 350]\<close>; then the basal and the bolus scalar, drawn uniformly from \<open>[18, 40]\<close>
  and \<open>[15, 35]\<close>.
\<close>

definition sampling_spec ::
  "('r, 'n) library \<Rightarrow> string \<Rightarrow> 'n \<Rightarrow> real list \<times> real \<times> real" where
  "sampling_spec L pump s =
     (case normal L 140 10 s of (drawn, s1) \<Rightarrow>
        let mean = (if pump = ''Omnipod'' then drawn else float_sub drawn 5)
        in case normal_size L mean 20 30 s1 of (raw, s2) \<Rightarrow>
           case uniform L 18 40 s2 of (basal, s3) \<Rightarrow>
           case uniform L 15 35 s3 of (bolus, s4) \<Rightarrow>
             (map (\<lambda>v. clip v 50 350) raw, basal, bolus))"

text \<open>
  The advisor's rule: the mean of the readings, above 180, below 80, or neither.
\<close>

definition advisor_spec :: "npfloat \<Rightarrow> string" where
  "advisor_spec mean =
     (if float_gt mean 180 then above_target
      else if float_lt mean 80 then below_target
      else within_target)"

subsection \<open>Example inputs\<close>

text \<open>
  A small executable library: counters as generator states, seeded with the seed
  itself. Its draws respect the ranges of \<open>randbelow_ok\<close> and \<open>random_sample_ok\<close>,
  and its Gaussian deviates are wide enough for the clipping to act at both ends.
\<close>

definition test_library :: "(nat, nat) library" where
  "test_library =
     \<lparr>random_seed = (\<lambda>k. nat k),
      randbelow = (\<lambda>r n. (r mod n, Suc r)),
      np_random_seed = (\<lambda>k. nat k),
      legacy_gauss = (\<lambda>s. (8 - 3 * real (s mod 7), Suc s)),
      random_sample = (\<lambda>s. (real (s mod 4) / 4, Suc s))\<rparr>"

text \<open>The same library, seeding differently for every seed but 42.\<close>

definition reseeded_library :: "(nat, nat) library" where
  "reseeded_library =
     test_library
       \<lparr>random_seed := (\<lambda>k. if k = 42 then 42 else 0),
        np_random_seed := (\<lambda>k. if k = 42 then 42 else nat k + 1)\<rparr>"

text \<open>
  A mean for the examples, computed in double arithmetic: the readings added in order,
  the sum divided by the count; NaN on the empty list.
\<close>

definition sequential_mean :: "real list \<Rightarrow> npfloat" where
  "sequential_mean xs =
     (if xs = [] then NaN
      else Finite (float_round (foldl float_add 0 xs / real (length xs))))"

definition test_numpy :: numpy where
  "test_numpy = \<lparr>np_mean = sequential_mean\<rparr>"

text \<open>
  A library whose first Gaussian deviate from the state 0 is \<open>3/2 + 2 ^ -52\<close>. With a
  pump other than Omnipod the exact base mean would be just above 150; in double
  arithmetic it is 150.
\<close>

definition threshold_deviate :: real where
  "threshold_deviate = 3 / 2 + 1 / 2 ^ 52"

definition threshold_library :: "(nat, nat) library" where
  "threshold_library = test_library\<lparr>legacy_gauss := (\<lambda>s. (threshold_deviate, Suc s))\<rparr>"

text \<open>
  The double next above 180, and a patient whose only month has the readings
  180.00000000000003, 180.0 and 180.0: their exact mean exceeds 180, their sum in double
  arithmetic is 540.
\<close>

definition next_above_180 :: real where
  "next_above_180 = 180 + 1 / 2 ^ 45"

definition boundary_patient :: Patient where
  "boundary_patient =
     \<lparr>id_p = 0, name = ''Alex Nguyen'', pump_type = ''Omnipod'',
      months =
        [0 \<mapsto> \<lparr>bg_values = [next_above_180, 180, 180], basal_units = 20, bolus_units = 16,
                 notes_md = ''a''\<rparr>]\<rparr>"

text \<open>
  The cohort of two that \<open>create_patients\<close> builds with \<open>test_library\<close> and
  \<open>test_numpy\<close>.
\<close>

definition sample_cohort :: "Patient list" where
  "sample_cohort =
     (case create_patients test_library test_numpy 2 (0, 0) of
        Inl e \<Rightarrow> [] | Inr (ps, w) \<Rightarrow> ps)"

text \<open>
  Two hand-written patients that agree on the readings of month 0 and on nothing
  else.
\<close>

definition demo_patient :: Patient where
  "demo_patient =
     \<lparr>id_p = 0, name = ''Alex Nguyen'', pump_type = ''Omnipod'',
      months =
        [0 \<mapsto> \<lparr>bg_values = [190, 210], basal_units = 20, bolus_units = 16, notes_md = ''a''\<rparr>,
         1 \<mapsto> \<lparr>bg_values = [60, 80], basal_units = 21, bolus_units = 17, notes_md = ''b''\<rparr>,
         2 \<mapsto> \<lparr>bg_values = [130], basal_units = 22, bolus_units = 18, notes_md = ''c''\<rparr>]\<rparr>"

definition other_patient :: Patient where
  "other_patient =
     \<lparr>id_p = 5, name = ''Casey Smith'', pump_type = ''Medtronic 780G'',
      months =
        [0 \<mapsto> \<lparr>bg_values = [190, 210], basal_units = 39, bolus_units = 34, notes_md = ''z''\<rparr>,
         1 \<mapsto> \<lparr>bg_values = [300], basal_units = 30, bolus_units = 30, notes_md = ''y''\<rparr>]\<rparr>"

section \<open>Properties of the generator and the advisor\<close>

subsection \<open>Rounding to binary64\<close>

text \<open>
  Rounding never crosses a representable number, the result is representable, and
  representable numbers are fixed; so rounding is idempotent, and exact on the integers
  and halves the examples use.
\<close>

lemma round_half_even_ge: "of_int A \<le> y \<Longrightarrow> A \<le> round_half_even y"
proof -
  assume "of_int A \<le> y"
  then have "A \<le> \<lfloor>y\<rfloor>" by (simp add: le_floor_iff)
  then show ?thesis unfolding round_half_even_def Let_def by auto
qed

lemma round_half_even_le: "y \<le> of_int B \<Longrightarrow> round_half_even y \<le> B"
proof -
  assume a: "y \<le> of_int B"
  then have f: "\<lfloor>y\<rfloor> \<le> B" by (simp add: floor_le_iff)
  show ?thesis
  proof (cases "\<lfloor>y\<rfloor> = B")
    case True
    with a have "y = of_int \<lfloor>y\<rfloor>" by (metis of_int_floor_le order_antisym)
    then have "y - of_int \<lfloor>y\<rfloor> < 1 / 2" by simp
    then show ?thesis using f unfolding round_half_even_def Let_def by simp
  next
    case False
    with f have "\<lfloor>y\<rfloor> + 1 \<le> B" by simp
    then show ?thesis using f unfolding round_half_even_def Let_def by auto
  qed
qed

lemma round_half_even_of_int: "round_half_even (of_int k) = k"
  unfolding round_half_even_def Let_def by simp

lemma binade_lower:
  assumes "x \<noteq> 0"
  shows "2 powr of_int \<lfloor>log 2 \<bar>x\<bar>\<rfloor> \<le> \<bar>x\<bar>"
proof -
  have "of_int \<lfloor>log 2 \<bar>x\<bar>\<rfloor> \<le> log 2 \<bar>x\<bar>" by (rule of_int_floor_le)
  then show ?thesis
    using le_log_iff [of 2 "\<bar>x\<bar>" "of_int \<lfloor>log 2 \<bar>x\<bar>\<rfloor>"] assms by simp
qed

lemma binade_upper:
  assumes "x \<noteq> 0"
  shows "\<bar>x\<bar> < 2 powr (of_int \<lfloor>log 2 \<bar>x\<bar>\<rfloor> + 1)"
proof -
  have "log 2 \<bar>x\<bar> < of_int \<lfloor>log 2 \<bar>x\<bar>\<rfloor> + 1" by linarith
  then show ?thesis
    using log_less_iff [of 2 "\<bar>x\<bar>" "of_int \<lfloor>log 2 \<bar>x\<bar>\<rfloor> + 1"] assms by simp
qed

text \<open>Scaled by its unit in the last place, \<open>x\<close> lies between \<open>2 ^ 52\<close> and \<open>2 ^ 53\<close>.\<close>

lemma scaled_bounds:
  assumes "x \<noteq> 0"
  defines "u \<equiv> 2 powr (of_int \<lfloor>log 2 \<bar>x\<bar>\<rfloor> - 52)"
  shows "2 ^ 52 \<le> \<bar>x\<bar> / u" and "\<bar>x\<bar> / u < 2 ^ 53" and "0 < u"
    and "2 powr of_int \<lfloor>log 2 \<bar>x\<bar>\<rfloor> = 2 ^ 52 * u"
    and "2 powr (of_int \<lfloor>log 2 \<bar>x\<bar>\<rfloor> + 1) = 2 ^ 53 * u"
proof -
  show u: "0 < u" by (simp add: u_def)
  have p52: "(2::real) powr 52 = 2 ^ 52" by (simp add: powr_numeral [symmetric] del: powr_numeral)
  have p53: "(2::real) powr 53 = 2 ^ 53" by (simp add: powr_numeral [symmetric] del: powr_numeral)
  show a: "2 powr of_int \<lfloor>log 2 \<bar>x\<bar>\<rfloor> = 2 ^ 52 * u"
    unfolding u_def p52 [symmetric] powr_add [symmetric] by simp
  show b: "2 powr (of_int \<lfloor>log 2 \<bar>x\<bar>\<rfloor> + 1) = 2 ^ 53 * u"
    unfolding u_def p53 [symmetric] powr_add [symmetric] by (simp add: algebra_simps)
  from binade_lower [OF assms(1)] a have "2 ^ 52 * u \<le> \<bar>x\<bar>" by simp
  then show "2 ^ 52 \<le> \<bar>x\<bar> / u" using u by (simp add: le_divide_eq)
  from binade_upper [OF assms(1)] b have "\<bar>x\<bar> < 2 ^ 53 * u" by simp
  then show "\<bar>x\<bar> / u < 2 ^ 53" using u by (simp add: divide_less_eq)
qed

lemma binary64_scaled_int:
  assumes "binary64 a" and "2 ^ 52 * u \<le> \<bar>a\<bar>" and "u = 2 powr (of_int e - 52)"
  shows "\<exists>A :: int. a = of_int A * u"
proof -
  from assms(1) obtain k j :: int where k: "\<bar>k\<bar> \<le> 2 ^ 53" and a: "a = of_int k * 2 powr of_int j"
    unfolding binary64_def by blast
  have u: "0 < u" by (simp add: assms(3))
  show ?thesis
  proof (cases "e - 52 \<le> j")
    case True
    define d where "d = nat (j - (e - 52))"
    have "of_int j = (of_int e - 52) + real d" using True by (simp add: d_def)
    then have "2 powr of_int j = u * 2 ^ d"
      by (simp add: assms(3) powr_add powr_realpow)
    then have "a = of_int (k * 2 ^ d) * u" by (simp add: a)
    then show ?thesis by blast
  next
    case False
    then have "of_int j \<le> (of_int e - 52) - (1::real)" by linarith
    then have "2 powr of_int j \<le> 2 powr ((of_int e - 52) - (1::real))" by simp
    also have "\<dots> = u / 2" by (simp add: assms(3) powr_diff)
    finally have j: "2 powr of_int j \<le> u / 2" .
    have "\<bar>a\<bar> = \<bar>of_int k\<bar> * 2 powr of_int j" by (simp add: a abs_mult)
    also have "\<dots> \<le> 2 ^ 53 * 2 powr of_int j"
    proof (rule mult_right_mono)
      have "\<bar>real_of_int k\<bar> = of_int \<bar>k\<bar>" by simp
      also have "\<dots> \<le> of_int (2 ^ 53)" using k by (simp only: of_int_le_iff)
      finally show "\<bar>real_of_int k\<bar> \<le> 2 ^ 53" by simp
    qed simp
    also have "\<dots> \<le> 2 ^ 53 * (u / 2)" using j by (intro mult_left_mono) auto
    also have "\<dots> = 2 ^ 52 * u" by simp
    finally have "\<bar>a\<bar> = 2 ^ 52 * u" using assms(2) by simp
    then have "a = of_int (2 ^ 52) * u \<or> a = of_int (- (2 ^ 52)) * u" by (auto simp: abs_if split: if_splits)
    then show ?thesis by blast
  qed
qed

lemma float_round_zero [simp]: "float_round 0 = 0"
  by (simp add: float_round_def round_half_even_def)

lemma float_round_lower:
  assumes "binary64 a" and "a \<le> x"
  shows "a \<le> float_round x"
proof (cases "x = 0")
  case True
  with assms(2) show ?thesis by (simp add: float_round_zero)
next
  case False
  define u :: real where "u = 2 powr (of_int \<lfloor>log 2 \<bar>x\<bar>\<rfloor> - 52)"
  define R where "R = round_half_even (x / u)"
  have fr: "float_round x = of_int R * u" by (simp add: float_round_def u_def R_def Let_def)
  note sb = scaled_bounds [OF False, folded u_def]
  have u: "0 < u" by (rule sb(3))
  have scaled: "a \<le> of_int R * u" if big: "2 ^ 52 * u \<le> \<bar>a\<bar>"
  proof -
    from binary64_scaled_int [OF assms(1) big u_def] obtain A :: int where A: "a = of_int A * u"
      by blast
    with assms(2) u have "of_int A \<le> x / u" by (simp add: le_divide_eq)
    then have "A \<le> R" unfolding R_def by (rule round_half_even_ge)
    then have "real_of_int A \<le> of_int R" by simp
    then show ?thesis unfolding A using u by (simp add: mult_right_mono)
  qed
  show ?thesis
  proof (cases "0 < x")
    case True
    with sb(1) have "of_int (2 ^ 52) \<le> x / u" by simp
    then have "2 ^ 52 \<le> R" unfolding R_def by (rule round_half_even_ge)
    then have "real_of_int (2 ^ 52) \<le> of_int R" by (simp only: of_int_le_iff)
    then have R: "2 ^ 52 * u \<le> of_int R * u" using u by (simp add: mult_right_mono)
    show ?thesis
    proof (cases "2 ^ 52 * u \<le> a")
      case True
      then have "2 ^ 52 * u \<le> \<bar>a\<bar>" by simp
      from scaled [OF this] show ?thesis by (simp add: fr)
    next
      case False
      with R show ?thesis by (simp add: fr)
    qed
  next
    case neg: False
    with False assms(2) have "\<bar>x\<bar> \<le> \<bar>a\<bar>" by simp
    moreover from sb(1) u have "2 ^ 52 * u \<le> \<bar>x\<bar>" by (simp add: le_divide_eq)
    ultimately have "2 ^ 52 * u \<le> \<bar>a\<bar>" by simp
    from scaled [OF this] show ?thesis by (simp add: fr)
  qed
qed

lemma float_round_upper:
  assumes "binary64 b" and "x \<le> b"
  shows "float_round x \<le> b"
proof (cases "x = 0")
  case True
  with assms(2) show ?thesis by (simp add: float_round_zero)
next
  case False
  define u :: real where "u = 2 powr (of_int \<lfloor>log 2 \<bar>x\<bar>\<rfloor> - 52)"
  define R where "R = round_half_even (x / u)"
  have fr: "float_round x = of_int R * u" by (simp add: float_round_def u_def R_def Let_def)
  note sb = scaled_bounds [OF False, folded u_def]
  have u: "0 < u" by (rule sb(3))
  have scaled: "of_int R * u \<le> b" if big: "2 ^ 52 * u \<le> \<bar>b\<bar>"
  proof -
    from binary64_scaled_int [OF assms(1) big u_def] obtain B :: int where B: "b = of_int B * u"
      by blast
    with assms(2) u have "x / u \<le> of_int B" by (simp add: divide_le_eq)
    then have "R \<le> B" unfolding R_def by (rule round_half_even_le)
    then have "real_of_int R \<le> of_int B" by simp
    then show ?thesis unfolding B using u by (simp add: mult_right_mono)
  qed
  show ?thesis
  proof (cases "0 < x")
    case True
    with assms(2) have "\<bar>x\<bar> \<le> \<bar>b\<bar>" by simp
    moreover from sb(1) u have "2 ^ 52 * u \<le> \<bar>x\<bar>" by (simp add: le_divide_eq)
    ultimately have "2 ^ 52 * u \<le> \<bar>b\<bar>" by simp
    from scaled [OF this] show ?thesis by (simp add: fr)
  next
    case neg: False
    with False have xn: "\<bar>x\<bar> = - x" by simp
    with sb(1) u have "x / u \<le> of_int (- (2 ^ 52))" by simp
    then have "R \<le> - (2 ^ 52)" unfolding R_def by (rule round_half_even_le)
    then have "real_of_int R \<le> of_int (- (2 ^ 52))" by (simp only: of_int_le_iff)
    then have "of_int R * u \<le> of_int (- (2 ^ 52)) * u" using u by (intro mult_right_mono) simp_all
    then have R: "of_int R * u \<le> - (2 ^ 52) * u" by simp
    show ?thesis
    proof (cases "b \<le> - (2 ^ 52) * u")
      case True
      then have "2 ^ 52 * u \<le> \<bar>b\<bar>" by simp
      from scaled [OF this] show ?thesis by (simp add: fr)
    next
      case False
      with R show ?thesis by (simp add: fr)
    qed
  qed
qed

lemma binary64_float_round: "binary64 (float_round x)"
proof (cases "x = 0")
  case True
  have "(0::real) = of_int 0 * 2 powr of_int 0" by simp
  then show ?thesis unfolding True float_round_zero binary64_def by (intro exI [of _ 0]) simp
next
  case False
  define e where "e = \<lfloor>log 2 \<bar>x\<bar>\<rfloor>"
  define u :: real where "u = 2 powr (of_int e - 52)"
  define R where "R = round_half_even (x / u)"
  have fr: "float_round x = of_int R * 2 powr of_int (e - 52)"
    by (simp add: float_round_def u_def R_def e_def Let_def)
  note sb = scaled_bounds [OF False, folded e_def, folded u_def]
  have u: "0 < u" by (rule sb(3))
  have "\<bar>u\<bar> = u" using u by simp
  then have "\<bar>x / u\<bar> = \<bar>x\<bar> / u" by (simp only: abs_divide)
  with sb(2) have ax: "\<bar>x / u\<bar> < 2 ^ 53" by (simp only:)
  then have "x / u \<le> 2 ^ 53" and "- (2 ^ 53) \<le> x / u" by linarith+
  then have "x / u \<le> of_int (2 ^ 53)" and "of_int (- (2 ^ 53)) \<le> x / u" by simp_all
  then have "R \<le> 2 ^ 53" and "- (2 ^ 53) \<le> R"
    unfolding R_def by (simp_all only: round_half_even_le round_half_even_ge)
  then have "\<bar>R\<bar> \<le> 2 ^ 53" by simp
  with fr show ?thesis unfolding binary64_def by blast
qed

lemma float_round_exact: "binary64 a \<Longrightarrow> float_round a = a"
  using float_round_lower [of a a] float_round_upper [of a a] by simp

lemma float_round_idem: "float_round (float_round x) = float_round x"
  by (rule float_round_exact) (rule binary64_float_round)

lemma binary64_of_int: "\<bar>k\<bar> \<le> 2 ^ 53 \<Longrightarrow> binary64 (of_int k)"
  unfolding binary64_def by (intro exI [of _ k] exI [of _ 0]) simp

lemma binary64_of_int_div: "\<bar>k\<bar> \<le> 2 ^ 53 \<Longrightarrow> binary64 (of_int k / 2 ^ n)"
  unfolding binary64_def
  by (intro exI [of _ k] exI [of _ "- int n"]) (simp add: powr_minus powr_realpow divide_inverse)

lemma binary64_numeral: "numeral n \<le> (2 ^ 53 :: int) \<Longrightarrow> binary64 (numeral n)"
  using binary64_of_int [of "numeral n"] by simp

lemma float_round_numeral [simp]:
  "numeral n \<le> (2 ^ 53 :: int) \<Longrightarrow> float_round (numeral n) = numeral n"
  by (rule float_round_exact) (rule binary64_numeral)

lemma float_round_neg_numeral [simp]:
  "numeral n \<le> (2 ^ 53 :: int) \<Longrightarrow> float_round (- numeral n) = - numeral n"
  using float_round_exact [OF binary64_of_int [of "- numeral n"]] by simp

lemma float_round_one [simp]: "float_round 1 = 1"
  using float_round_exact [OF binary64_of_int [of 1]] by simp

lemma float_round_numeral_half [simp]:
  "numeral n \<le> (2 ^ 53 :: int) \<Longrightarrow> float_round (numeral n / 2) = numeral n / 2"
  using float_round_exact [OF binary64_of_int_div [of "numeral n" 1]] by simp

lemma float_add_zero_mul: "float_add 0 (float_mul a b) = float_mul a b"
  by (simp add: float_add_def float_mul_def float_round_idem)

text \<open>The exponent of a number between two consecutive powers of two.\<close>

lemma float_round_binade:
  assumes "2 powr of_int e \<le> \<bar>x\<bar>" and "\<bar>x\<bar> < 2 powr (of_int e + 1)"
  shows "float_round x = of_int (round_half_even (x / 2 powr (of_int e - 52))) * 2 powr (of_int e - 52)"
proof -
  have x: "0 < \<bar>x\<bar>" using assms(1) powr_gt_zero [of 2 "of_int e"] by linarith
  have "of_int e \<le> log 2 \<bar>x\<bar>" using assms(1) x le_log_iff [of 2 "\<bar>x\<bar>" "of_int e"] by simp
  moreover have "log 2 \<bar>x\<bar> < of_int e + 1"
    using assms(2) x log_less_iff [of 2 "\<bar>x\<bar>" "of_int e + 1"] by simp
  ultimately have "\<lfloor>log 2 \<bar>x\<bar>\<rfloor> = e" by (simp add: floor_eq_iff)
  then show ?thesis by (simp add: float_round_def Let_def)
qed

lemma float_round_scaled:
  assumes "2 ^ 52 \<le> \<bar>y\<bar>" and "\<bar>y\<bar> < 2 ^ 53"
  shows "float_round (y * 2 powr of_int j) = of_int (round_half_even y) * 2 powr of_int j"
proof -
  define u :: real where "u = 2 powr of_int j"
  have u: "0 < u" by (simp add: u_def)
  have p52: "(2::real) powr 52 = 2 ^ 52" by (simp add: powr_numeral [symmetric] del: powr_numeral)
  have p53: "(2::real) powr 53 = 2 ^ 53" by (simp add: powr_numeral [symmetric] del: powr_numeral)
  have lo: "2 powr of_int (j + 52) = 2 ^ 52 * u"
    unfolding u_def p52 [symmetric] powr_add [symmetric] by (simp add: algebra_simps)
  have hi: "2 powr (of_int (j + 52) + 1) = 2 ^ 53 * u"
    unfolding u_def p53 [symmetric] powr_add [symmetric] by (simp add: algebra_simps)
  have ab: "\<bar>y * u\<bar> = \<bar>y\<bar> * u" using u by (simp add: abs_mult)
  have "2 powr of_int (j + 52) \<le> \<bar>y * u\<bar>"
    unfolding lo ab using assms(1) u by (simp add: mult_right_mono)
  moreover have "\<bar>y * u\<bar> < 2 powr (of_int (j + 52) + 1)"
    unfolding hi ab using assms(2) u by (simp add: mult_strict_right_mono)
  ultimately have "float_round (y * u)
      = of_int (round_half_even (y * u / 2 powr (of_int (j + 52) - 52)))
          * 2 powr (of_int (j + 52) - 52)"
    by (rule float_round_binade)
  moreover have "2 powr (of_int (j + 52) - 52) = u" by (simp add: u_def)
  moreover have "y * u / u = y" using u by simp
  ultimately show ?thesis unfolding u_def by simp
qed

subsection \<open>One patient-month\<close>

lemma normal_size_length: "length (fst (normal_size L loc scale k s)) = k"
  by (induction k arbitrary: s) (simp_all add: case_prod_beta)

lemma clip_bounds: "a_min \<le> a_max \<Longrightarrow> a_min \<le> clip a a_min a_max \<and> clip a a_min a_max \<le> a_max"
  by (simp add: clip_def)

lemma month_body_bg_values:
  "bg_values (fst (month_body L N pump m s)) =
     map (\<lambda>v. clip v 50 350)
       (fst (normal_size L (base_mean_at L pump s) 20 30 (snd (normal L 0 10 s))))"
  by (simp add: month_body_def base_mean_at_def Let_def case_prod_beta)

lemma month_body_basal_units:
  "basal_units (fst (month_body L N pump m s)) =
     fst (uniform L 18 40 (snd (normal_size L (base_mean_at L pump s) 20 30 (snd (normal L 0 10 s)))))"
  by (simp add: month_body_def base_mean_at_def Let_def case_prod_beta)

lemma month_body_bolus_units:
  "bolus_units (fst (month_body L N pump m s)) =
     fst (uniform L 15 35 (snd (uniform L 18 40
       (snd (normal_size L (base_mean_at L pump s) 20 30 (snd (normal L 0 10 s)))))))"
  by (simp add: month_body_def base_mean_at_def Let_def case_prod_beta)

lemma month_body_length: "length (bg_values (fst (month_body L N pump m s))) = 30"
  by (simp add: month_body_bg_values normal_size_length)

lemma month_body_readings:
  "x \<in> set (bg_values (fst (month_body L N pump m s))) \<Longrightarrow> 50 \<le> x \<and> x \<le> 350"
  unfolding month_body_bg_values using clip_bounds [of 50 350] by auto

lemma uniform_bounds:
  assumes "random_sample_ok L" and "low \<le> high"
    and "binary64 low" and "binary64 high" and "binary64 (high - low)"
  shows "low \<le> fst (uniform L low high s) \<and> fst (uniform L low high s) \<le> high"
proof -
  obtain u s' where us: "random_sample L s = (u, s')" by (cases "random_sample L s")
  with assms(1) have u: "0 \<le> u" "u < 1"
    unfolding random_sample_ok_def by (metis fst_conv)+
  define d where "d = float_sub high low"
  define m where "m = float_mul d u"
  have d: "d = high - low" unfolding d_def float_sub_def by (rule float_round_exact) (rule assms(5))
  have "0 \<le> d * u" using assms(2) u by (simp add: d)
  moreover have "binary64 0" using binary64_of_int [of 0] by simp
  ultimately have m0: "0 \<le> m" unfolding m_def float_mul_def by (intro float_round_lower) simp_all
  have "d * u \<le> d * 1" using assms(2) u by (intro mult_left_mono) (auto simp: d)
  then have "d * u \<le> d" by simp
  moreover have "binary64 d" unfolding d by (rule assms(5))
  ultimately have m1: "m \<le> d" unfolding m_def float_mul_def by (intro float_round_upper)
  have "low \<le> float_add low m"
    unfolding float_add_def using m0 by (intro float_round_lower assms(3)) simp
  moreover have "float_add low m \<le> high"
    unfolding float_add_def using m1 by (intro float_round_upper assms(4)) (simp add: d)
  ultimately show ?thesis by (simp add: uniform_def us d_def m_def)
qed

lemma month_body_doses:
  assumes "random_sample_ok L"
  shows "18 \<le> basal_units (fst (month_body L N pump m s)) \<and> basal_units (fst (month_body L N pump m s)) \<le> 40
       \<and> 15 \<le> bolus_units (fst (month_body L N pump m s)) \<and> bolus_units (fst (month_body L N pump m s)) \<le> 35"
proof -
  have b: "binary64 18" "binary64 40" "binary64 (40 - 18)" "binary64 15" "binary64 35"
    "binary64 (35 - 15)"
    by (simp_all add: binary64_numeral)
  show ?thesis
    unfolding month_body_basal_units month_body_bolus_units
    using uniform_bounds [OF assms _ b(1,2,3)] uniform_bounds [OF assms _ b(4,5,6)] by simp
qed

lemma month_body_note:
  "notes_md (fst (month_body L N pump m s)) =
     narrative_spec m (base_mean_at L pump s) (np_mean N (bg_values (fst (month_body L N pump m s))))"
  by (simp add: month_body_def base_mean_at_def narrative_spec_def Let_def case_prod_beta)

lemma month_body_sampling:
  "(bg_values (fst (month_body L N pump m s)), basal_units (fst (month_body L N pump m s)),
    bolus_units (fst (month_body L N pump m s))) = sampling_spec L pump s"
proof -
  have n: "normal L 140 10 s = (float_add 140 (fst (normal L 0 10 s)), snd (normal L 0 10 s))"
    by (simp add: normal_def case_prod_beta float_add_zero_mul)
  have b: "base_mean_at L pump s =
      (if pump = ''Omnipod'' then float_add 140 (fst (normal L 0 10 s))
       else float_sub (float_add 140 (fst (normal L 0 10 s))) 5)"
    by (simp add: base_mean_at_def Let_def)
  show ?thesis
    unfolding month_body_bg_values month_body_basal_units month_body_bolus_units
    by (simp add: sampling_spec_def n b Let_def case_prod_beta)
qed

text \<open>The four notes differ whatever the month, and so do the three recommendations.\<close>

lemma notes_distinct:
  "dawn_note a \<noteq> exercise_note b \<and> dawn_note a \<noteq> illness_note b \<and> dawn_note a \<noteq> routine_note b
   \<and> exercise_note a \<noteq> illness_note b \<and> exercise_note a \<noteq> routine_note b
   \<and> illness_note a \<noteq> routine_note b"
  by (simp add: dawn_note_def exercise_note_def illness_note_def routine_note_def)

lemma targets_distinct:
  "above_target \<noteq> below_target \<and> above_target \<noteq> within_target \<and> below_target \<noteq> within_target"
  by (simp add: above_target_def below_target_def within_target_def)

subsection \<open>The two loops\<close>

text \<open>
  The inner loop leaves the patient's identity alone, adds exactly the month indices
  it runs over, and every month it stores is the result of \<open>month_body\<close> at that
  index, for the patient's pump, from some numpy state.
\<close>

lemma months_loop_inv:
  "months_loop L N pump ms p s = (p', s') \<Longrightarrow>
     id_p p' = id_p p \<and> name p' = name p \<and> pump_type p' = pump_type p \<and>
     dom (months p') = dom (months p) \<union> int ` set ms \<and>
     (\<forall>m md. months p' m = Some md \<longrightarrow>
        months p m = Some md \<or> (m \<in> int ` set ms \<and> (\<exists>st. md = fst (month_body L N pump (nat m) st))))"
proof (induction ms arbitrary: p s)
  case Nil
  then show ?case by simp
next
  case (Cons m ms)
  obtain md s1 where mb: "month_body L N pump m s = (md, s1)" by (cases "month_body L N pump m s")
  let ?q = "p\<lparr>months := (months p)(int m \<mapsto> md)\<rparr>"
  from Cons.prems mb have "months_loop L N pump ms ?q s1 = (p', s')" by simp
  note ih = Cons.IH [OF this]
  have md: "md = fst (month_body L N pump (nat (int m)) s)" using mb by simp
  show ?case
  proof (intro conjI allI impI)
    show "dom (months p') = dom (months p) \<union> int ` set (m # ms)" using ih by auto
  next
    fix k kd assume "months p' k = Some kd"
    with ih have "months ?q k = Some kd \<or> (k \<in> int ` set ms \<and> (\<exists>st. kd = fst (month_body L N pump (nat k) st)))"
      by blast
    then show "months p k = Some kd \<or> (k \<in> int ` set (m # ms) \<and> (\<exists>st. kd = fst (month_body L N pump (nat k) st)))"
      using md by (auto split: if_splits)
  qed (use ih in auto)
qed

lemma range12: "int ` {0..<12} = {0..11}"
proof -
  have "int ` {0..<12} = {int 0..<int 12}" by (simp only: image_int_atLeastLessThan)
  then show ?thesis by auto
qed

lemma months_loop_year:
  assumes "months_loop L N pump [0..<12] \<lparr>id_p = i, name = nm, pump_type = pump, months = Map.empty\<rparr> s = (p, s')"
  shows "id_p p = i \<and> name p = nm \<and> pump_type p = pump \<and> dom (months p) = {0..11} \<and>
     (\<forall>m md. months p m = Some md \<longrightarrow> (\<exists>st. md = fst (month_body L N pump (nat m) st)))"
  using months_loop_inv [OF assms] by (simp add: range12)

lemma months_loop_other:
  "k \<notin> int ` set ms \<Longrightarrow> months (fst (months_loop L N pump ms p s)) k = months p k"
  by (induction ms arbitrary: p s) (auto simp: case_prod_beta)

lemma months_loop_first:
  "m \<notin> set ms \<Longrightarrow>
     months (fst (months_loop L N pump (m # ms) p s)) (int m) = Some (fst (month_body L N pump m s))"
proof -
  assume "m \<notin> set ms"
  then have "int m \<notin> int ` set ms" by auto
  then have "months (fst (months_loop L N pump ms
                 (p\<lparr>months := (months p)(int m \<mapsto> fst (month_body L N pump m s))\<rparr>)
                 (snd (month_body L N pump m s)))) (int m)
             = months (p\<lparr>months := (months p)(int m \<mapsto> fst (month_body L N pump m s))\<rparr>) (int m)"
    by (rule months_loop_other)
  then show ?thesis by (simp add: case_prod_beta)
qed

lemma choice_mem: "choice L seq r = Inr (x, r') \<Longrightarrow> x \<in> set seq"
  by (auto simp: choice_def split: if_splits prod.splits)

lemma choice_total:
  assumes "randbelow_ok L" "seq \<noteq> []"
  shows "\<exists>x r'. choice L seq r = Inr (x, r')"
proof -
  obtain i r' where ir: "randbelow L r (length seq) = (i, r')"
    by (cases "randbelow L r (length seq)")
  have "0 < length seq" using assms(2) by simp
  with assms(1) have "fst (randbelow L r (length seq)) < length seq"
    unfolding randbelow_ok_def by blast
  with ir have "i < length seq" by simp
  with ir assms(2) show ?thesis by (simp add: choice_def)
qed

lemma generate_name_total:
  assumes "randbelow_ok L"
  shows "\<exists>nm r'. generate_name L r = Inr (nm, r')"
proof -
  obtain f r1 where a: "choice L first_names r = Inr (f, r1)"
    using choice_total [OF assms, of first_names r] by (auto simp: first_names_def)
  obtain l r2 where b: "choice L last_names r1 = Inr (l, r2)"
    using choice_total [OF assms, of last_names r1] by (auto simp: last_names_def)
  show ?thesis by (simp add: generate_name_def a b)
qed

lemma patients_loop_inv:
  "patients_loop L N pids acc w = Inr (ps, w') \<Longrightarrow>
     length ps = length acc + length pids \<and>
     (\<forall>p \<in> set ps. p \<in> set acc \<or>
        (pump_type p \<in> set pump_choices \<and> dom (months p) = {0..11} \<and>
         (\<forall>m md. months p m = Some md \<longrightarrow>
            (\<exists>st. md = fst (month_body L N (pump_type p) (nat m) st)))))"
proof (induction pids arbitrary: acc w)
  case Nil
  then show ?case by simp
next
  case (Cons pid pids)
  obtain r s where w: "w = (r, s)" by (cases w)
  from Cons.prems w obtain nm r1 where gn: "generate_name L r = Inr (nm, r1)"
    by (auto split: sum.splits)
  from Cons.prems w gn obtain pump r2 where ch: "choice L pump_choices r1 = Inr (pump, r2)"
    by (auto split: sum.splits)
  let ?p0 = "\<lparr>id_p = int pid, name = nm, pump_type = pump, months = Map.empty\<rparr>"
  obtain q s1 where ml: "months_loop L N pump [0..<12] ?p0 s = (q, s1)"
    by (cases "months_loop L N pump [0..<12] ?p0 s")
  from Cons.prems w gn ch ml have rest: "patients_loop L N pids (acc @ [q]) (r2, s1) = Inr (ps, w')"
    by simp
  note ih = Cons.IH [OF rest]
  note q = months_loop_year [OF ml]
  have qp: "pump_type q \<in> set pump_choices" using q choice_mem [OF ch] by simp
  show ?case
  proof (intro conjI ballI)
    show "length ps = length acc + length (pid # pids)" using ih by simp
  next
    fix p assume "p \<in> set ps"
    with ih have "p \<in> set (acc @ [q]) \<or>
        (pump_type p \<in> set pump_choices \<and> dom (months p) = {0..11} \<and>
         (\<forall>m md. months p m = Some md \<longrightarrow>
            (\<exists>st. md = fst (month_body L N (pump_type p) (nat m) st))))" by blast
    then show "p \<in> set acc \<or>
        (pump_type p \<in> set pump_choices \<and> dom (months p) = {0..11} \<and>
         (\<forall>m md. months p m = Some md \<longrightarrow>
            (\<exists>st. md = fst (month_body L N (pump_type p) (nat m) st))))"
      using q qp by auto
  qed
qed

lemma patients_loop_total:
  assumes "randbelow_ok L"
  shows "\<exists>ps w'. patients_loop L N pids acc w = Inr (ps, w')"
proof (induction pids arbitrary: acc w)
  case Nil
  show ?case by simp
next
  case (Cons pid pids)
  obtain r s where w: "w = (r, s)" by (cases w)
  obtain nm r1 where gn: "generate_name L r = Inr (nm, r1)"
    using generate_name_total [OF assms] by blast
  obtain pump r2 where ch: "choice L pump_choices r1 = Inr (pump, r2)"
    using choice_total [OF assms, of pump_choices r1] by (auto simp: pump_choices_def)
  let ?p0 = "\<lparr>id_p = int pid, name = nm, pump_type = pump, months = Map.empty\<rparr>"
  obtain q s1 where ml: "months_loop L N pump [0..<12] ?p0 s = (q, s1)"
    by (cases "months_loop L N pump [0..<12] ?p0 s")
  show ?case using Cons [of "acc @ [q]" "(r2, s1)"] by (simp add: w gn ch ml)
qed

lemma patients_loop_prefix:
  "patients_loop L N pids acc w = Inr (ps, w') \<Longrightarrow> take (length acc) ps = acc"
proof (induction pids arbitrary: acc w)
  case Nil
  then show ?case by simp
next
  case (Cons pid pids)
  obtain r s where w: "w = (r, s)" by (cases w)
  from Cons.prems w obtain nm r1 where gn: "generate_name L r = Inr (nm, r1)"
    by (auto split: sum.splits)
  from Cons.prems w gn obtain pump r2 where ch: "choice L pump_choices r1 = Inr (pump, r2)"
    by (auto split: sum.splits)
  let ?p0 = "\<lparr>id_p = int pid, name = nm, pump_type = pump, months = Map.empty\<rparr>"
  obtain q s1 where ml: "months_loop L N pump [0..<12] ?p0 s = (q, s1)"
    by (cases "months_loop L N pump [0..<12] ?p0 s")
  from Cons.prems w gn ch ml have "patients_loop L N pids (acc @ [q]) (r2, s1) = Inr (ps, w')"
    by simp
  from Cons.IH [OF this] have "take (Suc (length acc)) ps = acc @ [q]" by simp
  then have "take (length acc) (take (Suc (length acc)) ps) = take (length acc) (acc @ [q])"
    by simp
  then show ?case by simp
qed

lemma create_patients_inv:
  assumes "create_patients L N n w = Inr (ps, w')"
  shows "length ps = nat n \<and>
     (\<forall>p \<in> set ps. pump_type p \<in> set pump_choices \<and> dom (months p) = {0..11} \<and>
         (\<forall>m md. months p m = Some md \<longrightarrow>
            (\<exists>st. md = fst (month_body L N (pump_type p) (nat m) st))))"
proof -
  from assms have "patients_loop L N [0..<nat n] [] (random_seed L 42, np_random_seed L 42) = Inr (ps, w')"
    by (simp add: create_patients_def Let_def split: prod.splits)
  from patients_loop_inv [OF this] show ?thesis by simp
qed

lemma create_patients_total:
  assumes "randbelow_ok L"
  shows "\<exists>ps w'. create_patients L N n w = Inr (ps, w')"
  using patients_loop_total [OF assms, of N "[0..<nat n]" "[]" "(random_seed L 42, np_random_seed L 42)"]
  by (simp add: create_patients_def Let_def split: prod.splits)

lemma first_patient:
  assumes "create_patients L N n w = Inr (ps, w')" and "0 < n"
  shows "\<exists>nm r1 pump r2.
           generate_name L (random_seed L 42) = Inr (nm, r1) \<and>
           choice L pump_choices r1 = Inr (pump, r2) \<and>
           hd ps = fst (months_loop L N pump [0..<12]
                     \<lparr>id_p = 0, name = nm, pump_type = pump, months = Map.empty\<rparr>
                     (np_random_seed L 42))"
proof -
  obtain k where k: "nat n = Suc k" using assms(2) by (cases "nat n") auto
  have up: "[0..<Suc k] = 0 # [Suc 0..<Suc k]" by (rule upt_conv_Cons) simp
  from assms(1) have "patients_loop L N [0..<Suc k] [] (random_seed L 42, np_random_seed L 42) = Inr (ps, w')"
    unfolding create_patients_def Let_def k by (simp split: prod.splits del: upt_Suc)
  then have run:
    "patients_loop L N (0 # [Suc 0..<Suc k]) [] (random_seed L 42, np_random_seed L 42) = Inr (ps, w')"
    by (simp only: up)
  then obtain nm r1 where gn: "generate_name L (random_seed L 42) = Inr (nm, r1)"
    by (auto split: sum.splits)
  from run gn obtain pump r2 where ch: "choice L pump_choices r1 = Inr (pump, r2)"
    by (auto split: sum.splits)
  let ?p0 = "\<lparr>id_p = 0, name = nm, pump_type = pump, months = Map.empty\<rparr>"
  obtain q s1 where ml: "months_loop L N pump [0..<12] ?p0 (np_random_seed L 42) = (q, s1)"
    by (cases "months_loop L N pump [0..<12] ?p0 (np_random_seed L 42)")
  from run gn ch ml have "patients_loop L N [Suc 0..<Suc k] ([] @ [q]) (r2, s1) = Inr (ps, w')"
    by (simp del: upt_Suc)
  from patients_loop_prefix [OF this] have "take 1 ps = [q]" by simp
  then have "hd ps = q" by (cases ps) auto
  with gn ch ml show ?thesis by simp
qed

subsection \<open>The advisor\<close>

lemma recommend_adjustment_present:
  "months p m = Some md \<Longrightarrow>
     recommend_adjustment N p m = Inr (advisor_spec (np_mean N (bg_values md)))"
  by (simp add: recommend_adjustment_def metrics_for_month_def advisor_spec_def)

lemma recommend_adjustment_absent:
  "months p m = None \<Longrightarrow> recommend_adjustment N p m = Inl KeyError"
  by (simp add: recommend_adjustment_def metrics_for_month_def)

subsection \<open>What the generator reads of the library\<close>

text \<open>The functions read the library through its draws only, never through its seeds.\<close>

lemma choice_cong: "randbelow L1 = randbelow L2 \<Longrightarrow> choice L1 seq r = choice L2 seq r"
  by (simp add: choice_def)

lemma generate_name_cong:
  assumes "randbelow L1 = randbelow L2"
  shows "generate_name L1 r = generate_name L2 r"
proof -
  have e: "choice L1 = (choice L2 :: string list \<Rightarrow> _)"
    by (intro ext) (rule choice_cong [OF assms])
  show ?thesis unfolding generate_name_def e by (rule refl)
qed

lemma normal_cong:
  "legacy_gauss L1 = legacy_gauss L2 \<Longrightarrow> normal L1 loc scale s = normal L2 loc scale s"
  by (simp add: normal_def)

lemma normal_size_cong:
  assumes "legacy_gauss L1 = legacy_gauss L2"
  shows "normal_size L1 loc scale k s = normal_size L2 loc scale k s"
proof (induction k arbitrary: s)
  case 0
  show ?case by simp
next
  case (Suc k)
  show ?case by (simp add: normal_cong [OF assms] Suc case_prod_beta)
qed

lemma uniform_cong:
  "random_sample L1 = random_sample L2 \<Longrightarrow> uniform L1 low high s = uniform L2 low high s"
  by (simp add: uniform_def)

lemma month_body_cong:
  assumes "legacy_gauss L1 = legacy_gauss L2" and "random_sample L1 = random_sample L2"
  shows "month_body L1 N pump m s = month_body L2 N pump m s"
  by (simp add: month_body_def base_mean_at_def normal_cong [OF assms(1)]
        normal_size_cong [OF assms(1)] uniform_cong [OF assms(2)] case_prod_beta)

lemma months_loop_cong:
  assumes "legacy_gauss L1 = legacy_gauss L2" and "random_sample L1 = random_sample L2"
  shows "months_loop L1 N pump ms p s = months_loop L2 N pump ms p s"
proof (induction ms arbitrary: p s)
  case Nil
  show ?case by simp
next
  case (Cons m ms)
  show ?case by (simp add: month_body_cong [OF assms] Cons case_prod_beta)
qed

lemma patients_loop_cong:
  assumes "randbelow L1 = randbelow L2"
    and "legacy_gauss L1 = legacy_gauss L2" and "random_sample L1 = random_sample L2"
  shows "patients_loop L1 N pids acc w = patients_loop L2 N pids acc w"
proof (induction pids arbitrary: acc w)
  case Nil
  show ?case by simp
next
  case (Cons pid pids)
  obtain r s where w: "w = (r, s)" by (cases w)
  have e1: "choice L1 = (choice L2 :: string list \<Rightarrow> _)"
    by (intro ext) (rule choice_cong [OF assms(1)])
  have e2: "generate_name L1 = generate_name L2"
    by (intro ext) (rule generate_name_cong [OF assms(1)])
  have e3: "months_loop L1 N = months_loop L2 N"
    by (intro ext) (rule months_loop_cong [OF assms(2,3)])
  have e4: "\<And>a v. patients_loop L1 N pids a v = patients_loop L2 N pids a v"
    by (rule Cons)
  show ?case unfolding w patients_loop.simps e1 e2 e3 e4 by (rule refl)
qed

subsection \<open>The example cohort\<close>

lemma test_library_randbelow_ok: "randbelow_ok test_library"
  by (simp add: randbelow_ok_def test_library_def)

lemma test_library_random_sample_ok: "random_sample_ok test_library"
  by (simp add: random_sample_ok_def test_library_def)

lemma sample_run:
  "\<exists>w'. create_patients test_library test_numpy 2 (0, 0) = Inr (sample_cohort, w')"
  using create_patients_total [OF test_library_randbelow_ok, of test_numpy 2 "(0, 0)"]
  by (auto simp: sample_cohort_def)

lemma sample_length: "length sample_cohort = 2"
  using sample_run create_patients_inv [of test_library test_numpy 2 "(0, 0)" sample_cohort] by auto

lemma sample_hd: "hd sample_cohort \<in> set sample_cohort"
proof -
  have "sample_cohort \<noteq> []" using sample_length by auto
  then show ?thesis by (rule hd_in_set)
qed

lemma sample_name: "generate_name test_library 42 = Inr (''Jordan Kim'', 44)"
  by (simp add: generate_name_def choice_def test_library_def first_names_def last_names_def)

lemma sample_pump: "choice test_library pump_choices 44 = Inr (''Medtronic 780G'', 45)"
  by (simp add: choice_def test_library_def pump_choices_def)

lemma sample_first:
  "hd sample_cohort = fst (months_loop test_library test_numpy ''Medtronic 780G'' [0..<12]
      \<lparr>id_p = 0, name = ''Jordan Kim'', pump_type = ''Medtronic 780G'', months = Map.empty\<rparr> 42)"
proof -
  obtain w' where "create_patients test_library test_numpy 2 (0, 0) = Inr (sample_cohort, w')"
    using sample_run by blast
  from first_patient [OF this] sample_name sample_pump show ?thesis
    by (auto simp: test_library_def)
qed

lemma sample_pump_type: "pump_type (hd sample_cohort) = ''Medtronic 780G''"
  using months_loop_inv [of test_library test_numpy "''Medtronic 780G''" "[0..<12]" _ 42 "hd sample_cohort"]
  by (simp add: sample_first prod_eq_iff)

lemma sample_january:
  "months (hd sample_cohort) 0 = Some (fst (month_body test_library test_numpy ''Medtronic 780G'' 0 42))"
proof -
  have up: "[0..<12] = 0 # [Suc 0..<12]" by (rule upt_conv_Cons) simp
  have "months (fst (months_loop test_library test_numpy ''Medtronic 780G'' (0 # [Suc 0..<12])
            \<lparr>id_p = 0, name = ''Jordan Kim'', pump_type = ''Medtronic 780G'', months = Map.empty\<rparr> 42))
          (int 0) = Some (fst (month_body test_library test_numpy ''Medtronic 780G'' 0 42))"
    by (rule months_loop_first) simp
  then show ?thesis unfolding sample_first up of_nat_0 .
qed

lemma normal_size_numeral:
  "normal_size L loc scale (numeral k) s =
     (case normal L loc scale s of
        (x, s1) \<Rightarrow> (case normal_size L loc scale (pred_numeral k) s1 of (xs, s2) \<Rightarrow> (x # xs, s2)))"
  by (simp add: numeral_eq_Suc)

lemma test_library_normal:
  "normal test_library loc scale s
     = (float_add loc (float_mul scale (8 - 3 * real (s mod 7))), Suc s)"
  by (simp add: normal_def test_library_def)

lemma test_library_uniform:
  "uniform test_library low high s
     = (float_add low (float_mul (float_sub high low) (real (s mod 4) / 4)), Suc s)"
  by (simp add: uniform_def test_library_def)

lemma sample_january_base_mean: "base_mean_at test_library ''Medtronic 780G'' 42 = 215"
  by (simp add: base_mean_at_def test_library_normal float_add_def float_sub_def float_mul_def)

lemma sample_january_draws:
  "normal_size test_library 215 20 30 43 =
     ([315, 255, 195, 135, 75, 15, 375, 315, 255, 195, 135, 75, 15, 375,
       315, 255, 195, 135, 75, 15, 375, 315, 255, 195, 135, 75, 15, 375, 315, 255], 73)"
  by (simp add: normal_size_numeral test_library_normal float_add_def float_mul_def)

lemma sample_january_readings:
  "bg_values (fst (month_body test_library test_numpy ''Medtronic 780G'' 0 42)) =
     [315, 255, 195, 135, 75, 50, 350, 315, 255, 195, 135, 75, 50, 350,
      315, 255, 195, 135, 75, 50, 350, 315, 255, 195, 135, 75, 50, 350, 315, 255]"
  unfolding month_body_bg_values sample_january_base_mean
  by (simp add: test_library_normal sample_january_draws clip_def)

lemma sample_january_doses:
  "basal_units (fst (month_body test_library test_numpy ''Medtronic 780G'' 0 42)) = 47 / 2 \<and>
   bolus_units (fst (month_body test_library test_numpy ''Medtronic 780G'' 0 42)) = 25"
  unfolding month_body_basal_units month_body_bolus_units sample_january_base_mean
  by (simp add: test_library_normal sample_january_draws test_library_uniform
        float_add_def float_sub_def float_mul_def)

lemma sample_january_note:
  "notes_md (fst (month_body test_library test_numpy ''Medtronic 780G'' 0 42)) = dawn_note ''January''"
  by (simp add: month_body_note sample_january_base_mean narrative_spec_def month_names_def)

text \<open>
  Rounding onto a threshold. With the deviate \<open>3/2 + 2 ^ -52\<close> the product with 10 rounds
  to \<open>15 + 2 ^ -49\<close>, the sum with 140 to 155 (a tie, to the even neighbour), and the base
  mean of a Tandem patient is exactly 150: January gets the routine note, where exact
  arithmetic would give a base mean above 150.
\<close>

lemma threshold_product: "float_mul 10 threshold_deviate = 15 + 1 / 2 ^ 49"
proof -
  have p: "(2::real) powr of_int (- 49) = 1 / 2 ^ 49"
    by (simp add: powr_minus_divide powr_numeral [symmetric] del: powr_numeral)
  have x: "10 * threshold_deviate = (15 * 2 ^ 49 + 5 / 4) * 2 powr of_int (- 49)"
    unfolding p threshold_deviate_def by simp
  have r: "round_half_even (15 * 2 ^ 49 + 5 / 4) = 15 * 2 ^ 49 + 1"
    by (simp add: round_half_even_def Let_def)
  have "float_round ((15 * 2 ^ 49 + 5 / 4) * 2 powr of_int (- 49))
          = of_int (round_half_even (15 * 2 ^ 49 + 5 / 4)) * 2 powr of_int (- 49)"
    by (rule float_round_scaled) simp_all
  then show ?thesis unfolding float_mul_def x r p by simp
qed

lemma threshold_sum: "float_add 140 (15 + 1 / 2 ^ 49) = 155"
proof -
  have p: "(2::real) powr of_int (- 45) = 1 / 2 ^ 45"
    by (simp add: powr_minus_divide powr_numeral [symmetric] del: powr_numeral)
  have x: "(140::real) + (15 + 1 / 2 ^ 49) = (155 * 2 ^ 45 + 1 / 16) * 2 powr of_int (- 45)"
    unfolding p by simp
  have r: "round_half_even (155 * 2 ^ 45 + 1 / 16) = 155 * 2 ^ 45"
    by (simp add: round_half_even_def Let_def)
  have "float_round ((155 * 2 ^ 45 + 1 / 16) * 2 powr of_int (- 45))
          = of_int (round_half_even (155 * 2 ^ 45 + 1 / 16)) * 2 powr of_int (- 45)"
    by (rule float_round_scaled) simp_all
  then show ?thesis unfolding float_add_def x r p by simp
qed

lemma threshold_draw: "fst (normal threshold_library 0 10 0) = 15 + 1 / 2 ^ 49"
  by (simp add: normal_def threshold_library_def test_library_def float_add_zero_mul
        threshold_product)

lemma threshold_base_mean: "base_mean_at threshold_library ''Tandem t:slim X2'' 0 = 150"
  unfolding base_mean_at_def Let_def threshold_draw threshold_sum
  by (simp add: float_sub_def)

lemma threshold_exact_base_mean: "140 + 10 * threshold_deviate - 5 > 150"
  by (simp add: threshold_deviate_def)

text \<open>
  A mean that lands on a threshold selects the routine note: in April a mean of exactly
  120 is not below 120.
\<close>

lemma april_boundary_note:
  "np_mean N (bg_values (fst (month_body L N pump 3 s))) = Finite 120 \<Longrightarrow>
     notes_md (fst (month_body L N pump 3 s)) = routine_note ''April''"
  by (simp add: month_body_note narrative_spec_def month_names_def float_lt_def)

lemma threshold_note:
  "notes_md (fst (month_body threshold_library N ''Tandem t:slim X2'' 0 0)) = routine_note ''January''"
  by (simp add: month_body_note threshold_base_mean narrative_spec_def month_names_def)

text \<open>
  Rounding in the mean. Added in order, the readings of \<open>boundary_patient\<close> give 360 (a
  tie, to the even neighbour) and then 540, so the mean is exactly 180 and the advice is
  the within-target one, although the exact mean is above 180.
\<close>

lemma next_above_180_binary64: "binary64 next_above_180"
proof -
  have e: "next_above_180 = of_int (180 * 2 ^ 45 + 1) / 2 ^ 45"
    by (simp add: next_above_180_def)
  show ?thesis unfolding e by (rule binary64_of_int_div) simp
qed

lemma boundary_first_sum: "float_add next_above_180 180 = 360"
proof -
  have p: "(2::real) powr of_int (- 44) = 1 / 2 ^ 44"
    by (simp add: powr_minus_divide powr_numeral [symmetric] del: powr_numeral)
  have x: "next_above_180 + 180 = (360 * 2 ^ 44 + 1 / 2) * 2 powr of_int (- 44)"
    unfolding p next_above_180_def by simp
  have r: "round_half_even (360 * 2 ^ 44 + 1 / 2) = 360 * 2 ^ 44"
    by (simp add: round_half_even_def Let_def)
  have "float_round ((360 * 2 ^ 44 + 1 / 2) * 2 powr of_int (- 44))
          = of_int (round_half_even (360 * 2 ^ 44 + 1 / 2)) * 2 powr of_int (- 44)"
    by (rule float_round_scaled) simp_all
  then show ?thesis unfolding float_add_def x r p by simp
qed

lemma boundary_mean: "sequential_mean [next_above_180, 180, 180] = Finite 180"
proof -
  have "float_add 0 next_above_180 = next_above_180"
    unfolding float_add_def using float_round_exact [OF next_above_180_binary64] by simp
  then have "foldl float_add 0 [next_above_180, 180, 180] = 540"
    by (simp add: boundary_first_sum) (simp add: float_add_def)
  then show ?thesis by (simp add: sequential_mean_def)
qed

lemma boundary_exact_mean: "sum_list [next_above_180, 180, 180] / 3 > 180"
  by (simp add: next_above_180_def)

lemma boundary_advice: "recommend_adjustment test_numpy boundary_patient 0 = Inr within_target"
  by (simp add: recommend_adjustment_def metrics_for_month_def boundary_patient_def
        test_numpy_def boundary_mean float_gt_def float_lt_def)

section \<open>The claims\<close>

text \<open>
  Claim C1 (generation is deterministic). For every count \<open>n\<close>, two runs of the generator
  return the same result whatever the states \<open>w1\<close> and \<open>w2\<close> the two pseudo-random
  generators were left in before each run: the same list of patients, with the same
  names, pump types, readings, basal and bolus scalars and notes, element for element
  (and the same generator states afterwards). The seed is the constant 42 of the code.
\<close>

theorem create_patients_deterministic:
  "create_patients L N n w1 = create_patients L N n w2"
  by (simp add: create_patients_def case_prod_beta)

text \<open>
  The example cohort was built from the states \<open>(0, 0)\<close>; a run from the states
  \<open>(17, 99)\<close> returns the same patients.
\<close>

theorem create_patients_deterministic_witness:
  "map_sum id fst (create_patients test_library test_numpy 2 (17, 99)) = Inr sample_cohort"
proof -
  obtain w' where "create_patients test_library test_numpy 2 (0, 0) = Inr (sample_cohort, w')"
    using sample_run by blast
  then show ?thesis
    using create_patients_deterministic [of test_library test_numpy 2 "(17, 99)" "(0, 0)"] by simp
qed

text \<open>
  Claim C2 (narrative priority chain). For every patient \<open>p\<close> of a generated cohort and
  every month index \<open>m\<close> from 0 to 11, the month stored under \<open>m\<close> is the one the loop
  body built from some numpy state \<open>st\<close>, and its note is the one the priority chain
  \<open>narrative_spec\<close> selects from the month index, the base mean of that iteration
  (rule 1) and the mean of the month's readings (rules 2 and 3). The base mean is the
  value of the variable \<^verbatim>\<open>base_mean\<close> at the test: the float the code computes, after
  the pump adjustment, which is the centre the readings are drawn around. The mean is
  the float \<^verbatim>\<open>np.mean\<close> returns for the month's 30 stored readings. In particular an
  iteration for January whose base mean is 160 writes the dawn-phenomenon note,
  whatever the readings and their mean are.
\<close>

theorem narrative_priority_chain:
  assumes "create_patients L N n w = Inr (ps, w')" and "p \<in> set ps" and "0 \<le> m" and "m \<le> 11"
  shows "(\<exists>st md. months p m = Some md
            \<and> md = fst (month_body L N (pump_type p) (nat m) st)
            \<and> length (bg_values md) = 30
            \<and> notes_md md
                = narrative_spec (nat m) (base_mean_at L (pump_type p) st)
                    (np_mean N (bg_values md)))
       \<and> (\<forall>M pump st. base_mean_at L pump st = 160 \<longrightarrow>
             notes_md (fst (month_body L M pump 0 st)) = dawn_note ''January'')"
proof -
  from create_patients_inv [OF assms(1)] assms(2)
  have d: "dom (months p) = {0..11}"
    and g: "\<And>k md. months p k = Some md \<Longrightarrow>
              \<exists>st. md = fst (month_body L N (pump_type p) (nat k) st)"
    by blast+
  from d assms(3,4) have "m \<in> dom (months p)" by simp
  then obtain md where md: "months p m = Some md" by blast
  from g [OF md] obtain st where st: "md = fst (month_body L N (pump_type p) (nat m) st)" by blast
  have "notes_md md
          = narrative_spec (nat m) (base_mean_at L (pump_type p) st) (np_mean N (bg_values md))"
    unfolding st by (rule month_body_note)
  moreover have "length (bg_values md) = 30" unfolding st by (rule month_body_length)
  ultimately have first: "\<exists>st md. months p m = Some md
            \<and> md = fst (month_body L N (pump_type p) (nat m) st)
            \<and> length (bg_values md) = 30
            \<and> notes_md md
                = narrative_spec (nat m) (base_mean_at L (pump_type p) st)
                    (np_mean N (bg_values md))"
    using md st by blast
  have "notes_md (fst (month_body L M pump 0 st)) = dawn_note ''January''"
    if "base_mean_at L pump st = 160" for M pump st
    using that by (simp add: month_body_note narrative_spec_def month_names_def)
  with first show ?thesis by blast
qed

text \<open>
  The chain at work in the example cohort: January of the first patient; and an
  iteration for an Omnipod patient that starts from the state 2, where the base mean
  is 160.
\<close>

theorem narrative_priority_chain_witness:
  "(\<exists>st md. months (hd sample_cohort) 0 = Some md
       \<and> md = fst (month_body test_library test_numpy (pump_type (hd sample_cohort)) (nat 0) st)
       \<and> length (bg_values md) = 30
       \<and> notes_md md
           = narrative_spec (nat 0) (base_mean_at test_library (pump_type (hd sample_cohort)) st)
               (np_mean test_numpy (bg_values md)))
   \<and> base_mean_at test_library ''Omnipod'' 2 = 160
   \<and> notes_md (fst (month_body test_library test_numpy ''Omnipod'' 0 2)) = dawn_note ''January''"
proof -
  obtain w' where run: "create_patients test_library test_numpy 2 (0, 0) = Inr (sample_cohort, w')"
    using sample_run by blast
  have b: "base_mean_at test_library ''Omnipod'' 2 = 160"
    by (simp add: base_mean_at_def normal_def test_library_def float_add_def float_mul_def)
  have t: "(\<exists>st md. months (hd sample_cohort) 0 = Some md
       \<and> md = fst (month_body test_library test_numpy (pump_type (hd sample_cohort)) (nat 0) st)
       \<and> length (bg_values md) = 30
       \<and> notes_md md
           = narrative_spec (nat 0) (base_mean_at test_library (pump_type (hd sample_cohort)) st)
               (np_mean test_numpy (bg_values md)))
     \<and> (\<forall>M pump st. base_mean_at test_library pump st = 160 \<longrightarrow>
           notes_md (fst (month_body test_library M pump 0 st)) = dawn_note ''January'')"
    by (rule narrative_priority_chain [OF run sample_hd]) simp_all
  from t b have "notes_md (fst (month_body test_library test_numpy ''Omnipod'' 0 2)) = dawn_note ''January''"
    by blast
  with t b show ?thesis by blast
qed

text \<open>
  Claim C3 (advisor thresholds). For every patient and month index whose month is
  present, the advisor takes the mean of the month's readings, the float \<^verbatim>\<open>np.mean\<close>
  returns for them, and returns the recommendation \<open>advisor_spec\<close> selects from it:
  above target when the mean is strictly above 180, else below target when it is
  strictly below 80, else within target. (A NaN mean, as for an empty list, satisfies
  neither comparison and gives the within-target recommendation; an infinite mean is
  above or below every number.) In particular a mean of 200 gives the above-target
  string, 70 the below-target string and 130 the within-target string. At the
  boundaries, a mean of exactly 180 or exactly 80 is within target.
\<close>

theorem advisor_thresholds:
  assumes "months p m = Some md"
  shows "recommend_adjustment N p m = Inr (advisor_spec (np_mean N (bg_values md)))
       \<and> (np_mean N (bg_values md) = Finite 200 \<longrightarrow> recommend_adjustment N p m = Inr above_target)
       \<and> (np_mean N (bg_values md) = Finite 70 \<longrightarrow> recommend_adjustment N p m = Inr below_target)
       \<and> (np_mean N (bg_values md) = Finite 130 \<longrightarrow> recommend_adjustment N p m = Inr within_target)
       \<and> (np_mean N (bg_values md) = Finite 180 \<longrightarrow> recommend_adjustment N p m = Inr within_target)
       \<and> (np_mean N (bg_values md) = Finite 80 \<longrightarrow> recommend_adjustment N p m = Inr within_target)
       \<and> (np_mean N (bg_values md) = NaN \<longrightarrow> recommend_adjustment N p m = Inr within_target)"
  unfolding recommend_adjustment_present [OF assms]
  by (simp add: advisor_spec_def float_gt_def float_lt_def)

text \<open>Three months of \<open>demo_patient\<close>, with means 200, 70 and 130.\<close>

theorem advisor_thresholds_witness:
  "recommend_adjustment test_numpy demo_patient 0 = Inr above_target
   \<and> recommend_adjustment test_numpy demo_patient 1 = Inr below_target
   \<and> recommend_adjustment test_numpy demo_patient 2 = Inr within_target"
proof -
  have "months demo_patient 0
          = Some \<lparr>bg_values = [190, 210], basal_units = 20, bolus_units = 16, notes_md = ''a''\<rparr>"
    by (simp add: demo_patient_def)
  from advisor_thresholds [OF this, of test_numpy]
  have a: "recommend_adjustment test_numpy demo_patient 0 = Inr above_target"
    by (elim conjE) (simp add: test_numpy_def sequential_mean_def float_add_def)
  have "months demo_patient 1
          = Some \<lparr>bg_values = [60, 80], basal_units = 21, bolus_units = 17, notes_md = ''b''\<rparr>"
    by (simp add: demo_patient_def)
  from advisor_thresholds [OF this, of test_numpy]
  have b: "recommend_adjustment test_numpy demo_patient 1 = Inr below_target"
    by (elim conjE) (simp add: test_numpy_def sequential_mean_def float_add_def)
  have "months demo_patient 2
          = Some \<lparr>bg_values = [130], basal_units = 22, bolus_units = 18, notes_md = ''c''\<rparr>"
    by (simp add: demo_patient_def)
  from advisor_thresholds [OF this, of test_numpy]
  have c: "recommend_adjustment test_numpy demo_patient 2 = Inr within_target"
    by (elim conjE) (simp add: test_numpy_def sequential_mean_def float_add_def)
  from a b c show ?thesis by simp
qed

text \<open>
  Claim C4 (12 months, 30 readings). For every count, every patient the generator
  returns has a month record under each index from 0 to 11 and under no other key, and
  every month record holds exactly 30 readings.
\<close>

theorem twelve_months_thirty_readings:
  assumes "create_patients L N n w = Inr (ps, w')" and "p \<in> set ps"
  shows "dom (months p) = {0..11}
       \<and> (\<forall>m md. months p m = Some md \<longrightarrow> length (bg_values md) = 30)"
proof -
  from create_patients_inv [OF assms(1)] assms(2)
  have d: "dom (months p) = {0..11}"
    and g: "\<And>k md. months p k = Some md \<Longrightarrow>
              \<exists>st. md = fst (month_body L N (pump_type p) (nat k) st)"
    by blast+
  have "length (bg_values md) = 30" if "months p m = Some md" for m md
    using g [OF that] by (auto simp: month_body_length)
  with d show ?thesis by blast
qed

text \<open>The first patient of the example cohort.\<close>

theorem twelve_months_thirty_readings_witness:
  "dom (months (hd sample_cohort)) = {0..11}
   \<and> length (bg_values (fst (month_body test_library test_numpy ''Medtronic 780G'' 0 42))) = 30"
proof -
  obtain w' where run: "create_patients test_library test_numpy 2 (0, 0) = Inr (sample_cohort, w')"
    using sample_run by blast
  from twelve_months_thirty_readings [OF run sample_hd] sample_january show ?thesis by blast
qed

text \<open>
  Claim C5 (readings within bounds). Every reading of every month of every generated
  patient lies in the closed interval from 50 to 350.
\<close>

theorem readings_clipped:
  assumes "create_patients L N n w = Inr (ps, w')" and "p \<in> set ps"
    and "months p m = Some md" and "x \<in> set (bg_values md)"
  shows "50 \<le> x \<and> x \<le> 350"
proof -
  from create_patients_inv [OF assms(1)] assms(2,3)
  obtain st where "md = fst (month_body L N (pump_type p) (nat m) st)" by blast
  with assms(4) show ?thesis by (simp add: month_body_readings)
qed

text \<open>
  January of the first patient of the example cohort, where the clipping acts at both
  ends.
\<close>

theorem readings_clipped_witness:
  "list_all (\<lambda>x. 50 \<le> x \<and> x \<le> 350)
     [315, 255, 195, 135, 75, 50, 350, 315, 255, 195, 135, 75, 50, 350,
      315, 255, 195, 135, 75, 50, 350, 315, 255, 195, 135, 75, 50, 350, 315, 255 :: real]"
proof -
  obtain w' where run: "create_patients test_library test_numpy 2 (0, 0) = Inr (sample_cohort, w')"
    using sample_run by blast
  have "\<forall>x \<in> set (bg_values (fst (month_body test_library test_numpy ''Medtronic 780G'' 0 42))).
          50 \<le> x \<and> x \<le> 350"
    using readings_clipped [OF run sample_hd sample_january] by blast
  then show ?thesis unfolding sample_january_readings list_all_iff .
qed

text \<open>
  Claim C6 (doses within bounds). Given a library whose unit-interval deviates lie in
  \<open>[0, 1)\<close>, for every generated patient and month the basal scalar lies within
  \<open>[18, 40]\<close> and the bolus scalar within \<open>[15, 35]\<close>.
\<close>

theorem doses_in_range:
  assumes "random_sample_ok L"
    and "create_patients L N n w = Inr (ps, w')" and "p \<in> set ps" and "months p m = Some md"
  shows "18 \<le> basal_units md \<and> basal_units md \<le> 40
       \<and> 15 \<le> bolus_units md \<and> bolus_units md \<le> 35"
proof -
  from create_patients_inv [OF assms(2)] assms(3,4)
  obtain st where "md = fst (month_body L N (pump_type p) (nat m) st)" by blast
  then show ?thesis using month_body_doses [OF assms(1), of N "pump_type p" "nat m" st] by simp
qed

text \<open>January of the first patient of the example cohort.\<close>

theorem doses_in_range_witness:
  "18 \<le> basal_units (fst (month_body test_library test_numpy ''Medtronic 780G'' 0 42))
   \<and> basal_units (fst (month_body test_library test_numpy ''Medtronic 780G'' 0 42)) \<le> 40
   \<and> 15 \<le> bolus_units (fst (month_body test_library test_numpy ''Medtronic 780G'' 0 42))
   \<and> bolus_units (fst (month_body test_library test_numpy ''Medtronic 780G'' 0 42)) \<le> 35"
proof -
  obtain w' where run: "create_patients test_library test_numpy 2 (0, 0) = Inr (sample_cohort, w')"
    using sample_run by blast
  show ?thesis
    by (rule doses_in_range [OF test_library_random_sample_ok run sample_hd sample_january])
qed

text \<open>
  Claim C7 (the advisor is total on the twelve months). For every generated patient,
  the advisor returns one of its three recommendation strings for every month index
  from 0 to 11, and fails with \<^verbatim>\<open>KeyError\<close> for every month index outside that range,
  whatever \<^verbatim>\<open>np.mean\<close> returns. The advisor's model has no patient among its results:
  the source assigns to no attribute of the patient or of its months.
\<close>

theorem advisor_total_on_months:
  assumes "create_patients L N n w = Inr (ps, w')" and "p \<in> set ps"
  shows "(0 \<le> m \<and> m \<le> 11 \<longrightarrow>
            (\<exists>s. recommend_adjustment M p m = Inr s
                  \<and> s \<in> {above_target, below_target, within_target}))
       \<and> (m < 0 \<or> 11 < m \<longrightarrow> recommend_adjustment M p m = Inl KeyError)"
proof -
  from create_patients_inv [OF assms(1)] assms(2)
  have d: "dom (months p) = {0..11}" by blast
  have "\<exists>s. recommend_adjustment M p m = Inr s \<and> s \<in> {above_target, below_target, within_target}"
    if "0 \<le> m \<and> m \<le> 11"
  proof -
    from d that have "m \<in> dom (months p)" by simp
    then obtain md where "months p m = Some md" by blast
    from recommend_adjustment_present [OF this] show ?thesis
      by (simp add: advisor_spec_def Let_def)
  qed
  moreover have "recommend_adjustment M p m = Inl KeyError" if "m < 0 \<or> 11 < m"
  proof -
    from d that have "m \<notin> dom (months p)" by auto
    then have "months p m = None" by blast
    then show ?thesis by (rule recommend_adjustment_absent)
  qed
  ultimately show ?thesis by blast
qed

text \<open>The first patient of the example cohort, at the indices 0, 12 and -1.\<close>

theorem advisor_total_on_months_witness:
  "(\<exists>s. recommend_adjustment test_numpy (hd sample_cohort) 0 = Inr s
        \<and> s \<in> {above_target, below_target, within_target})
   \<and> recommend_adjustment test_numpy (hd sample_cohort) 12 = Inl KeyError
   \<and> recommend_adjustment test_numpy (hd sample_cohort) (- 1) = Inl KeyError"
proof -
  obtain w' where run: "create_patients test_library test_numpy 2 (0, 0) = Inr (sample_cohort, w')"
    using sample_run by blast
  from advisor_total_on_months [OF run sample_hd, where m = 0 and M = test_numpy]
    advisor_total_on_months [OF run sample_hd, where m = 12 and M = test_numpy]
    advisor_total_on_months [OF run sample_hd, where m = "- 1" and M = test_numpy]
  show ?thesis by simp
qed

text \<open>
  Claim C8 (the sampling procedure). Given a library whose \<^verbatim>\<open>_randbelow(n)\<close> stays
  below \<open>n\<close>, generation never fails: for every count it returns a list of that many
  patients (none for a count below one). For every patient and month index from 0 to
  11, the readings and the two dose scalars are those of \<open>sampling_spec\<close>, run from some
  numpy state: a base mean drawn with mean 140 and standard deviation 10, less 5 exactly
  when the pump is not Omnipod, 30 readings drawn with that mean and standard deviation
  20 and clipped to \<open>[50, 350]\<close>, then one uniform draw from \<open>[18, 40]\<close> and one from
  \<open>[15, 35]\<close>.
\<close>

theorem sampling_procedure:
  assumes "randbelow_ok L"
  shows "\<exists>ps w'. create_patients L N n w = Inr (ps, w') \<and> length ps = nat n
           \<and> (\<forall>p \<in> set ps. \<forall>m \<in> {0..11}. \<exists>st md. months p m = Some md
                 \<and> (bg_values md, basal_units md, bolus_units md)
                     = sampling_spec L (pump_type p) st)"
proof -
  from create_patients_total [OF assms] obtain ps w'
    where run: "create_patients L N n w = Inr (ps, w')" by blast
  note inv = create_patients_inv [OF run]
  have "\<exists>st md. months p m = Some md
          \<and> (bg_values md, basal_units md, bolus_units md) = sampling_spec L (pump_type p) st"
    if "p \<in> set ps" and "m \<in> {0..11}" for p m
  proof -
    from inv that(1) have d: "dom (months p) = {0..11}"
      and g: "\<And>k md. months p k = Some md \<Longrightarrow>
              \<exists>st. md = fst (month_body L N (pump_type p) (nat k) st)"
      by blast+
    from d that(2) have "m \<in> dom (months p)" by simp
    then obtain md where md: "months p m = Some md" by blast
    from g [OF md] obtain st where "md = fst (month_body L N (pump_type p) (nat m) st)" by blast
    then have "(bg_values md, basal_units md, bolus_units md) = sampling_spec L (pump_type p) st"
      by (simp only: month_body_sampling)
    with md show ?thesis by blast
  qed
  with run inv show ?thesis by blast
qed

text \<open>The example cohort, and January of its first patient.\<close>

theorem sampling_procedure_witness:
  "length sample_cohort = 2
   \<and> (\<exists>st md. months (hd sample_cohort) 0 = Some md
         \<and> (bg_values md, basal_units md, bolus_units md)
             = sampling_spec test_library (pump_type (hd sample_cohort)) st)"
proof -
  from sampling_procedure [OF test_library_randbelow_ok, of test_numpy 2 "(0, 0)"]
  obtain ps w' where run: "create_patients test_library test_numpy 2 (0, 0) = Inr (ps, w')"
    and len: "length ps = nat 2"
    and all: "\<forall>p \<in> set ps. \<forall>m \<in> {0..11}. \<exists>st md. months p m = Some md
                 \<and> (bg_values md, basal_units md, bolus_units md)
                     = sampling_spec test_library (pump_type p) st"
    by blast
  from run have ps: "ps = sample_cohort" by (simp add: sample_cohort_def)
  have "(0 :: int) \<in> {0..11}" by simp
  with all sample_hd show ?thesis unfolding ps using len ps by auto
qed

text \<open>
  Claim C9 (the seed is fixed). \<open>create_patients\<close> takes no seed. It runs its loops from
  the states that seeding with 42 installs, so its result does not depend on the states
  \<open>w1\<close>, \<open>w2\<close> of the generators before the call; and it does not depend on what seeding
  with any other number would install: two libraries with the same draws that agree on
  the seed 42 give the same result.
\<close>

theorem seed_is_fixed:
  assumes "random_seed L1 42 = random_seed L2 42"
    and "np_random_seed L1 42 = np_random_seed L2 42"
    and "randbelow L1 = randbelow L2"
    and "legacy_gauss L1 = legacy_gauss L2"
    and "random_sample L1 = random_sample L2"
  shows "create_patients L1 N n w1 = create_patients L2 N n w2
       \<and> create_patients L1 N n w1
           = patients_loop L1 N [0..<nat n] [] (random_seed L1 42, np_random_seed L1 42)"
  by (simp add: create_patients_def case_prod_beta assms(1,2) patients_loop_cong [OF assms(3-5)])

text \<open>
  Two libraries that seed differently at 7 and alike at 42, called with different
  prior states.
\<close>

theorem seed_is_fixed_witness:
  "random_seed test_library 7 \<noteq> random_seed reseeded_library 7
   \<and> np_random_seed test_library 7 \<noteq> np_random_seed reseeded_library 7
   \<and> create_patients test_library test_numpy 2 (0, 0) = create_patients reseeded_library test_numpy 2 (5, 9)"
  using seed_is_fixed [of test_library reseeded_library test_numpy 2 "(0, 0)" "(5, 9)"]
  by (simp add: test_library_def reseeded_library_def)

text \<open>
  Claim C10 (the advisor reads only the readings). For any two patients and any month
  index, if the readings of that month are the same in both (or the month is absent in
  both), the advisor returns the same result for both, whatever their names, pump
  types, dose scalars, notes and other months are.
\<close>

theorem advisor_reads_only_the_readings:
  assumes "map_option bg_values (months p1 m) = map_option bg_values (months p2 m)"
  shows "recommend_adjustment N p1 m = recommend_adjustment N p2 m"
  using assms
  by (cases "months p1 m"; cases "months p2 m")
     (simp_all add: recommend_adjustment_def metrics_for_month_def)

text \<open>
  \<open>demo_patient\<close> and \<open>other_patient\<close> differ in name, pump, doses, notes and the
  readings of month 1, and agree on the readings of month 0.
\<close>

theorem advisor_reads_only_the_readings_witness:
  "name demo_patient \<noteq> name other_patient
   \<and> pump_type demo_patient \<noteq> pump_type other_patient
   \<and> months demo_patient 0 \<noteq> months other_patient 0
   \<and> months demo_patient 1 \<noteq> months other_patient 1
   \<and> recommend_adjustment test_numpy demo_patient 0 = recommend_adjustment test_numpy other_patient 0"
  using advisor_reads_only_the_readings [of demo_patient 0 other_patient test_numpy]
  by (simp add: demo_patient_def other_patient_def)

end
